theory Spec2Isabelle
  imports Main "HOL-Library.Word" "HOL-Library.Sublist"
begin

section \<open>The websocket transport adapter of jsonrpc/websocket.go\<close>

text \<open>
  Go strings and byte slices are sequences of bytes: \<open>string\<close> (a \<open>char\<close> is one byte),
  so \<open>length\<close> is Go's \<open>len\<close>. A slice that may be \<open>nil\<close> is a \<open>string option\<close>,
  \<open>None\<close> being \<open>nil\<close>: \<open>websocketConn.Read\<close> tests \<open>wsc.buf == nil\<close>, and an empty
  slice that is not nil does not pass that test.
\<close>

subsection \<open>Errors\<close>

text \<open>
  A Go \<open>error\<close> as this file observes it: the text of \<open>err.Error()\<close>, and the status
  code of the \<open>websocket.CloseError\<close> that \<open>errors.As\<close> finds in its chain, if there is one
  (\<open>websocket.CloseStatus\<close> returns that code).
\<close>

datatype error = GoError (Error: string) (AsCloseError: "int option")

text \<open>\<open>const closeReasonMaxBytes = 125\<close>\<close>

definition closeReasonMaxBytes :: nat where
  "closeReasonMaxBytes = 125"

text \<open>\<open>websocket.StatusInternalError\<close> of the transport library (RFC 6455: 1011).\<close>

definition StatusInternalError :: int where
  "StatusInternalError = 1011"

subsection \<open>Connection parameters\<close>

text \<open>
  \<open>ReadLimit\<close> is an \<open>int64\<close>; \<open>WriteDuration\<close> is a \<open>time.Duration\<close>, an \<open>int64\<close> count of
  nanoseconds. Both are signed: \<open>sint\<close> reads them.
\<close>

record WebsocketConnParams =
  ReadLimit :: "64 word"
  WriteDuration :: "64 word"

definition Second :: "64 word" where
  "Second = 1000000000"

definition DefaultWebsocketConnParams :: WebsocketConnParams where
  "DefaultWebsocketConnParams =
     \<lparr>ReadLimit = 32 * 1024 * 1024, WriteDuration = 5 * Second\<rparr>"

text \<open>
  The \<open>Websocket\<close> struct. Its \<open>rpc\<close>, \<open>log\<close> and \<open>listener\<close> fields are capabilities
  whose effects are recorded in the trace below; \<open>connParams\<close> is the only data.
\<close>

record Websocket =
  connParams :: WebsocketConnParams

definition NewWebsocket :: Websocket where
  "NewWebsocket = \<lparr>connParams = DefaultWebsocketConnParams\<rparr>"

definition WithConnParams :: "Websocket \<Rightarrow> WebsocketConnParams \<Rightarrow> Websocket" where
  "WithConnParams ws p = ws\<lparr>connParams := p\<rparr>"

subsection \<open>Effects\<close>

datatype level = InfoLevel | WarnLevel | ErrorLevel

datatype log_value = ErrValue error | StatusValue int

datatype MessageType = MessageText | MessageBinary

text \<open>
  Everything the connection does to the outside world, in the order it happens:
  a call of the adapter's \<open>Read\<close> with the length of the caller's buffer, a \<open>conn.Read\<close>
  of the transport with what it returned, the return of \<open>HandleReader\<close>, a call of the
  listener, a \<open>conn.Write\<close> with its timeout, message type, payload and result, a
  \<open>conn.Close\<close> with its status, reason and result, a log entry with its level, message,
  key and value, and \<open>conn.SetReadLimit\<close>.
\<close>

datatype event =
    AdapterRead nat
  | ConnRead "string option" "error option"
  | HandlerReturn "error + string"
  | OnNewRequest string
  | ConnWrite "64 word" MessageType string "error option"
  | ConnClose int string "error option"
  | Log level string string log_value
  | SetReadLimit "64 word"

text \<open>
  The transport library is external: its answers are parameters. \<open>conn_Read i\<close> is what
  the \<open>i\<close>-th call of \<open>conn.Read\<close> returns (the message type is dropped, as the source
  drops it): the bytes, possibly nil, and the error, possibly nil. \<open>conn_Write j p\<close> is
  what the \<open>j\<close>-th call of \<open>conn.Write\<close> returns for payload \<open>p\<close> (a write that misses
  its deadline returns an error), \<open>conn_Close\<close> what \<open>conn.Close\<close> returns, and \<open>Accept\<close>
  the error of \<open>websocket.Accept\<close>.
\<close>

record transport =
  Accept :: "error option"
  conn_Read :: "nat \<Rightarrow> string option \<times> error option"
  conn_Write :: "nat \<Rightarrow> string \<Rightarrow> error option"
  conn_Close :: "int \<Rightarrow> string \<Rightarrow> error option"

subsection \<open>The stream adapter\<close>

text \<open>
  The \<open>websocketConn\<close> struct: \<open>buf\<close> and \<open>params\<close> as in the source. The connection
  handle is the transport above with the number of \<open>conn.Read\<close> and \<open>conn.Write\<close> calls
  made so far; \<open>trace\<close> records the effects.
\<close>

record websocketConn =
  buf :: "string option"
  params :: WebsocketConnParams
  fetched :: nat
  written :: nat
  trace :: "event list"

definition emit :: "event \<Rightarrow> websocketConn \<Rightarrow> websocketConn" where
  "emit e wsc = wsc\<lparr>trace := trace wsc @ [e]\<rparr>"

definition newWebsocketConn :: "WebsocketConnParams \<Rightarrow> websocketConn" where
  "newWebsocketConn ps =
     \<lparr>buf = None, params = ps, fetched = 0, written = 0,
      trace = [SetReadLimit (ReadLimit ps)]\<rparr>"

text \<open>Go's \<open>len\<close> and contents of a slice that may be nil.\<close>

definition bytes :: "string option \<Rightarrow> string" where
  "bytes b = (case b of None \<Rightarrow> [] | Some s \<Rightarrow> s)"

text \<open>
  What \<open>Read\<close> returns: the count \<open>n\<close>, the error, and the bytes it copied into the
  front of the caller's buffer \<open>p\<close>. \<open>Read\<close> only looks at \<open>len(p)\<close>, so the caller's
  buffer is given by its length.
\<close>

datatype read_result = ReadResult (count: nat) (err: "error option") (copied: string)

text \<open>The second half of \<open>Read\<close>: the copy into \<open>p\<close> and the update of \<open>wsc.buf\<close>.\<close>

definition deliver :: "nat \<Rightarrow> websocketConn \<Rightarrow> read_result \<times> websocketConn" where
  "deliver lenp wsc =
     (if length (bytes (buf wsc)) > lenp
      then (ReadResult lenp None (take lenp (bytes (buf wsc))),
            wsc\<lparr>buf := Some (drop lenp (bytes (buf wsc)))\<rparr>)
      else (ReadResult (length (bytes (buf wsc))) None (bytes (buf wsc)),
            wsc\<lparr>buf := None\<rparr>))"

text \<open>The first half: when \<open>wsc.buf\<close> is nil, fetch one message from the transport.\<close>

definition fetch :: "transport \<Rightarrow> websocketConn \<Rightarrow> error option \<times> websocketConn" where
  "fetch T wsc =
     (case conn_Read T (fetched wsc) of (b, e) \<Rightarrow>
        (e, emit (ConnRead b e) (wsc\<lparr>buf := b, fetched := fetched wsc + 1\<rparr>)))"

definition Read :: "transport \<Rightarrow> nat \<Rightarrow> websocketConn \<Rightarrow> read_result \<times> websocketConn" where
  "Read T lenp wsc0 =
     (let wsc = emit (AdapterRead lenp) wsc0 in
      case buf wsc of
        None \<Rightarrow>
          (case fetch T wsc of
             (Some e, wsc') \<Rightarrow> (ReadResult (length (bytes (buf wsc'))) (Some e) [], wsc')
           | (None, wsc') \<Rightarrow> deliver lenp wsc')
      | Some b \<Rightarrow> deliver lenp wsc)"

definition Write :: "transport \<Rightarrow> string \<Rightarrow> websocketConn \<Rightarrow> (nat \<times> error option) \<times> websocketConn" where
  "Write T p wsc =
     (let e = conn_Write T (written wsc) p;
          wsc' = emit (ConnWrite (WriteDuration (params wsc)) MessageText p e)
                   (wsc\<lparr>written := written wsc + 1\<rparr>)
      in case e of
           Some x \<Rightarrow> ((0, Some x), wsc')
         | None \<Rightarrow> ((length p, None), wsc'))"

subsection \<open>The request-processing core\<close>

text \<open>
  \<open>Server.HandleReader(ctx, wsc)\<close> is not part of this file: it is a parameter. It is
  given the adapter as an \<open>io.Reader\<close>, so what it can do to the connection is call
  \<open>Read\<close> with buffers of its choice, any number of times, each choice depending on what
  the earlier calls returned, and then return a response or an error. \<open>CallRead lenp k\<close>
  calls \<open>Read\<close> with a buffer of length \<open>lenp\<close> and goes on as \<open>k\<close> of the result.
  (The context it is given also holds the connection, under \<open>ConnKey\<close>; a core that
  writes to the connection through the context is not modelled.)
\<close>

datatype handler = Return "error + string" | CallRead nat "read_result \<Rightarrow> handler"

primrec run_handler :: "transport \<Rightarrow> handler \<Rightarrow> websocketConn \<Rightarrow> (error + string) \<times> websocketConn" where
  "run_handler T (Return r) wsc = (r, emit (HandlerReturn r) wsc)"
| "run_handler T (CallRead lenp k) wsc =
     (case Read T lenp wsc of (res, wsc') \<Rightarrow> run_handler T (k res) wsc')"

subsection \<open>The lifecycle manager\<close>

text \<open>\<open>strings.Contains(s, substr)\<close>\<close>

fun Contains :: "string \<Rightarrow> string \<Rightarrow> bool" where
  "Contains [] substr = (substr = [])"
| "Contains (c # s) substr = (prefix substr (c # s) \<or> Contains s substr)"

text \<open>
  The \<open>for\<close> loop of \<open>ServeHTTP\<close>. It has no bound of its own, so the model takes the
  number of iterations it may run: \<open>(None, wsc)\<close> is a loop still running after that many
  iterations, \<open>(Some err, wsc)\<close> a loop left by \<open>break\<close> with \<open>err\<close>. \<open>rpc i\<close> is the
  behaviour of \<open>HandleReader\<close> in iteration \<open>i\<close>.
\<close>

fun serve_loop :: "transport \<Rightarrow> (nat \<Rightarrow> handler) \<Rightarrow> nat \<Rightarrow> nat \<Rightarrow> websocketConn
    \<Rightarrow> error option \<times> websocketConn" where
  "serve_loop T rpc 0 i wsc = (None, wsc)"
| "serve_loop T rpc (Suc fuel) i wsc =
     (case run_handler T (rpc i) wsc of
        (Inl e, wsc1) \<Rightarrow> (Some e, wsc1)
      | (Inr resp, wsc1) \<Rightarrow>
          (case Write T resp (emit (OnNewRequest ''any'') wsc1) of
             ((_, Some e), wsc2) \<Rightarrow> (Some e, wsc2)
           | ((_, None), wsc2) \<Rightarrow> serve_loop T rpc fuel (Suc i) wsc2))"

text \<open>The truncation of the close reason (lines 79 to 82).\<close>

definition closeReason :: "string \<Rightarrow> string" where
  "closeReason errString =
     (if length errString > closeReasonMaxBytes then take closeReasonMaxBytes errString
      else errString)"

text \<open>What \<open>ServeHTTP\<close> does after the loop, with the error that left it.\<close>

definition shutdown :: "transport \<Rightarrow> error \<Rightarrow> websocketConn \<Rightarrow> websocketConn" where
  "shutdown T e wsc =
     (case AsCloseError e of
        Some code \<Rightarrow>
          emit (Log InfoLevel ''Client closed websocket connection'' ''status'' (StatusValue code)) wsc
      | None \<Rightarrow>
          (let wsc1 = emit (Log WarnLevel ''Closing websocket connection due to internal error''
                              ''err'' (ErrValue e)) wsc;
               errString = closeReason (Error e);
               r = conn_Close T StatusInternalError errString;
               wsc2 = emit (ConnClose StatusInternalError errString r) wsc1
           in case r of
                None \<Rightarrow> wsc2
              | Some e' \<Rightarrow>
                  if \<not> Contains (Error e') ''already wrote close''
                  then emit (Log ErrorLevel ''Failed to close websocket connection''
                               ''err'' (ErrValue e')) wsc2
                  else wsc2))"

text \<open>
  \<open>ServeHTTP\<close> returns nothing: its result is the trace of its effects, \<open>None\<close> when
  the loop is still running after \<open>fuel\<close> iterations.
\<close>

definition ServeHTTP :: "Websocket \<Rightarrow> transport \<Rightarrow> (nat \<Rightarrow> handler) \<Rightarrow> nat \<Rightarrow> event list option" where
  "ServeHTTP ws T rpc fuel =
     (case Accept T of
        Some e \<Rightarrow> Some [Log ErrorLevel ''Failed to upgrade connection'' ''err'' (ErrValue e)]
      | None \<Rightarrow>
          (case serve_loop T rpc fuel 0 (newWebsocketConn (connParams ws)) of
             (None, wsc) \<Rightarrow> None
           | (Some e, wsc) \<Rightarrow> Some (trace (shutdown T e wsc))))"

subsection \<open>Observations on runs\<close>

text \<open>
  A caller of \<open>Read\<close>: one call for each buffer length of the list, in order, until a
  call returns an error. The result is what the calls copied out, concatenated, and the
  connection afterwards.
\<close>

fun read_calls :: "transport \<Rightarrow> nat list \<Rightarrow> websocketConn \<Rightarrow> string \<times> websocketConn" where
  "read_calls T [] wsc = ([], wsc)"
| "read_calls T (lenp # ls) wsc =
     (case Read T lenp wsc of (res, wsc') \<Rightarrow>
        (case err res of
           Some e \<Rightarrow> ([], wsc')
         | None \<Rightarrow> (case read_calls T ls wsc' of (out, wsc'') \<Rightarrow> (copied res @ out, wsc''))))"

text \<open>
  The bytes a call of \<open>Read\<close> has at hand once its fetch, if it makes one, is done:
  the buffered remainder, or the message that the next \<open>conn.Read\<close> returns.
\<close>

definition pendingBytes :: "transport \<Rightarrow> websocketConn \<Rightarrow> string" where
  "pendingBytes T wsc =
     (case buf wsc of None \<Rightarrow> bytes (fst (conn_Read T (fetched wsc))) | Some b \<Rightarrow> b)"

text \<open>Counting in a trace.\<close>

fun isNotify :: "event \<Rightarrow> bool" where
  "isNotify (OnNewRequest label) = True"
| "isNotify _ = False"

fun isResponse :: "event \<Rightarrow> bool" where
  "isResponse (HandlerReturn (Inr resp)) = True"
| "isResponse _ = False"

fun isWriteOk :: "event \<Rightarrow> bool" where
  "isWriteOk (ConnWrite d t p None) = True"
| "isWriteOk _ = False"

fun isWriteFailed :: "event \<Rightarrow> bool" where
  "isWriteFailed (ConnWrite d t p (Some e)) = True"
| "isWriteFailed _ = False"

fun isFailure :: "event \<Rightarrow> bool" where
  "isFailure (HandlerReturn (Inl e)) = True"
| "isFailure (ConnWrite d t p (Some e)) = True"
| "isFailure _ = False"

fun isErrorLog :: "event \<Rightarrow> bool" where
  "isErrorLog (Log ErrorLevel m k v) = True"
| "isErrorLog _ = False"

fun isConnRead :: "event \<Rightarrow> bool" where
  "isConnRead (ConnRead b e) = True"
| "isConnRead _ = False"

fun isConnWrite :: "event \<Rightarrow> bool" where
  "isConnWrite (ConnWrite d t p e) = True"
| "isConnWrite _ = False"

definition notified :: "event list \<Rightarrow> nat" where
  "notified tr = length (filter isNotify tr)"

definition responded :: "event list \<Rightarrow> nat" where
  "responded tr = length (filter isResponse tr)"

definition completed :: "event list \<Rightarrow> nat" where
  "completed tr = length (filter isWriteOk tr)"

definition failedWrites :: "event list \<Rightarrow> nat" where
  "failedWrites tr = length (filter isWriteFailed tr)"

text \<open>
  The calls of \<open>conn.Close\<close> in a trace, with the status and the reason each was given,
  whatever it returned; and those among them that returned no error, the closes that
  the transport carried out with the reason it was given.
\<close>

fun closeCall :: "event \<Rightarrow> (int \<times> string) list" where
  "closeCall (ConnClose status reason r) = [(status, reason)]"
| "closeCall _ = []"

definition closeCalls :: "event list \<Rightarrow> (int \<times> string) list" where
  "closeCalls tr = concat (map closeCall tr)"

fun closedCall :: "event \<Rightarrow> (int \<times> string) list" where
  "closedCall (ConnClose status reason None) = [(status, reason)]"
| "closedCall _ = []"

definition closedWith :: "event list \<Rightarrow> (int \<times> string) list" where
  "closedWith tr = concat (map closedCall tr)"

text \<open>
  The order of the listener's call in a trace, checked from left to right. While
  \<open>Reading\<close>, the adapter and the transport are read; the return of a response must be
  followed at once by the listener's call with the label \<open>any\<close>, and that call at once
  by the write of that response as a text message. A write that succeeds leads back to
  \<open>Reading\<close>; a write that fails, or the return of an error by the core, leads to
  \<open>Left\<close>, where only log entries and \<open>conn.Close\<close> may follow. Anything else is
  \<open>Violated\<close>: a call of the listener anywhere but between the return of a response and
  its write, or a write with no call of the listener right before it.
\<close>

datatype phase = Reading | Responded string | Notified string | Left | Violated

fun order_step :: "phase \<Rightarrow> event \<Rightarrow> phase" where
  "order_step Reading (AdapterRead lenp) = Reading"
| "order_step Reading (ConnRead b e) = Reading"
| "order_step Reading (HandlerReturn (Inr resp)) = Responded resp"
| "order_step Reading (HandlerReturn (Inl e)) = Left"
| "order_step Reading (SetReadLimit n) = Reading"
| "order_step Reading (Log l m k v) = Reading"
| "order_step (Responded resp) (OnNewRequest label) =
     (if label = ''any'' then Notified resp else Violated)"
| "order_step (Notified resp) (ConnWrite d t p r) =
     (if p = resp \<and> t = MessageText
      then (case r of None \<Rightarrow> Reading | Some e \<Rightarrow> Left)
      else Violated)"
| "order_step Left (Log l m k v) = Left"
| "order_step Left (ConnClose status reason r) = Left"
| "order_step ph ev = Violated"

definition notify_order :: "event list \<Rightarrow> phase" where
  "notify_order tr = foldl order_step Reading tr"

text \<open>
  Half-duplex order of a trace, checked from left to right. The state is the response
  that \<open>HandleReader\<close> has returned and that is not yet written, if there is one; \<open>None\<close>
  is a violation. A read of the adapter or of the transport, or the return of another
  response, while a response awaits its write is a violation; so is a write of
  anything but the awaited response as one text message. A write that fails leaves its
  response unwritten, so no read may follow it.
\<close>

fun hd_step :: "string option option \<Rightarrow> event \<Rightarrow> string option option" where
  "hd_step None ev = None"
| "hd_step (Some pending) (AdapterRead lenp) = (if pending = None then Some None else None)"
| "hd_step (Some pending) (ConnRead b e) = (if pending = None then Some None else None)"
| "hd_step (Some pending) (HandlerReturn (Inr resp)) =
     (if pending = None then Some (Some resp) else None)"
| "hd_step (Some pending) (ConnWrite d t p r) =
     (if pending = Some p \<and> t = MessageText
      then (case r of None \<Rightarrow> Some None | Some e \<Rightarrow> Some pending)
      else None)"
| "hd_step (Some pending) ev = Some pending"

definition half_duplex :: "event list \<Rightarrow> bool" where
  "half_duplex tr = (foldl hd_step (Some None) tr \<noteq> None)"

text \<open>
  The invariant of the connection parameters as the specification words it: both values
  strictly positive.
\<close>

definition params_positive :: "WebsocketConnParams \<Rightarrow> bool" where
  "params_positive p = (0 < sint (ReadLimit p) \<and> 0 < sint (WriteDuration p))"

text \<open>
  Well-formed UTF-8 (RFC 3629), on the values of the bytes: what the specification's
  "UTF-8-safe" asks of a close reason cut from a well-formed message.
\<close>

definition utf8_cont :: "nat \<Rightarrow> bool" where
  "utf8_cont b = (128 \<le> b \<and> b \<le> 191)"

fun utf8_wf :: "nat list \<Rightarrow> bool" where
  "utf8_wf [] = True"
| "utf8_wf (a # r) =
     (if a < 128 then utf8_wf r
      else if 194 \<le> a \<and> a \<le> 223 then
        (case r of b # r1 \<Rightarrow> utf8_cont b \<and> utf8_wf r1 | _ \<Rightarrow> False)
      else if 224 \<le> a \<and> a \<le> 239 then
        (case r of b # c # r2 \<Rightarrow>
           (if a = 224 then 160 \<le> b \<and> b \<le> 191
            else if a = 237 then 128 \<le> b \<and> b \<le> 159
            else utf8_cont b) \<and> utf8_cont c \<and> utf8_wf r2
         | _ \<Rightarrow> False)
      else if 240 \<le> a \<and> a \<le> 244 then
        (case r of b # c # d # r3 \<Rightarrow>
           (if a = 240 then 144 \<le> b \<and> b \<le> 191
            else if a = 244 then 128 \<le> b \<and> b \<le> 143
            else utf8_cont b) \<and> utf8_cont c \<and> utf8_cont d \<and> utf8_wf r3
         | _ \<Rightarrow> False)
      else False)"

definition utf8_valid :: "string \<Rightarrow> bool" where
  "utf8_valid s = utf8_wf (map of_char s)"

text \<open>
  The bytes of a list of messages that a connection has not yet handed to its caller:
  the buffered remainder and the messages not yet fetched. \<open>potential\<close> adds the number
  of messages not yet fetched: it bounds the calls of \<open>Read\<close> still needed.
\<close>

definition undelivered :: "string list \<Rightarrow> websocketConn \<Rightarrow> string" where
  "undelivered msgs wsc = bytes (buf wsc) @ concat (drop (fetched wsc) msgs)"

definition potential :: "string list \<Rightarrow> websocketConn \<Rightarrow> nat" where
  "potential msgs wsc = length (undelivered msgs wsc) + (length msgs - fetched wsc)"

text \<open>
  The shape of what the loop adds to the trace, for the write timeout \<open>d\<close> and the
  result of the loop: each iteration is some reads, the return of the handler, and, if
  it returned a response, the listener's call and one write.
\<close>

fun isReadEvent :: "event \<Rightarrow> bool" where
  "isReadEvent (AdapterRead lenp) = True"
| "isReadEvent (ConnRead b e) = True"
| "isReadEvent _ = False"

inductive loop_events :: "64 word \<Rightarrow> error option \<Rightarrow> event list \<Rightarrow> bool" for d where
  running: "loop_events d None []"
| handler_failed:
    "list_all isReadEvent rs \<Longrightarrow> loop_events d (Some e) (rs @ [HandlerReturn (Inl e)])"
| write_failed:
    "list_all isReadEvent rs \<Longrightarrow>
     loop_events d (Some e)
       (rs @ [HandlerReturn (Inr resp), OnNewRequest ''any'', ConnWrite d MessageText resp (Some e)])"
| cycle:
    "list_all isReadEvent rs \<Longrightarrow> loop_events d r es \<Longrightarrow>
     loop_events d r
       (rs @ HandlerReturn (Inr resp) # OnNewRequest ''any'' # ConnWrite d MessageText resp None # es)"

subsection \<open>Example runs\<close>

text \<open>
  A peer that sends three messages, the second one empty, and then closes with status
  1000; every write and the close succeed.
\<close>

definition ex_msgs :: "string list" where
  "ex_msgs = [''ab'', [], ''cde'']"

definition ex_closed :: error where
  "ex_closed = GoError ''status = StatusNormalClosure and reason = '' (Some 1000)"

definition ex_transport :: transport where
  "ex_transport =
     \<lparr>Accept = None,
      conn_Read = (\<lambda>i. if i < 3 then (Some (ex_msgs ! i), None) else (None, Some ex_closed)),
      conn_Write = (\<lambda>j p. None),
      conn_Close = (\<lambda>status reason. None)\<rparr>"

text \<open>A core that reads once with a buffer of 8 bytes and answers with what it read.\<close>

definition echo :: handler where
  "echo = CallRead 8 (\<lambda>res. case err res of Some e \<Rightarrow> Return (Inl e)
                                              | None \<Rightarrow> Return (Inr (copied res)))"

text \<open>A transport on which every write misses its deadline.\<close>

definition ex_timeout :: error where
  "ex_timeout = GoError ''failed to write msg: context deadline exceeded'' None"

definition ex_stalled :: transport where
  "ex_stalled = ex_transport\<lparr>conn_Write := \<lambda>j p. Some ex_timeout\<rparr>"

text \<open>
  A core that fails with the message \<open>m\<close>, and a message of 126 bytes that is
  well-formed UTF-8: 124 letters and one character of two bytes. \<open>ex_cut\<close> is its first
  125 bytes.
\<close>

definition failing :: "string \<Rightarrow> handler" where
  "failing m = Return (Inl (GoError m None))"

definition ex_long :: string where
  "ex_long = replicate 124 (CHR ''a'') @ [CHR 0xC3, CHR 0xA9]"

definition ex_cut :: string where
  "ex_cut = replicate 124 (CHR ''a'') @ [CHR 0xC3]"

text \<open>Errors of \<open>conn.Close\<close> and of \<open>conn.Read\<close>.\<close>

definition ex_already :: error where
  "ex_already = GoError ''failed to close WebSocket: already wrote close'' None"

definition ex_broken :: error where
  "ex_broken = GoError ''failed to close WebSocket: broken pipe'' None"

definition ex_reset :: error where
  "ex_reset = GoError ''failed to get reader: connection reset by peer'' None"

text \<open>
  The limit of the transport library on the reason of a close: a close frame is a control
  frame, with at most 125 bytes of payload, and two of them are the status code.
  \<open>ex_strict\<close> is a transport whose \<open>conn.Close\<close> refuses a longer reason with an
  error, as the library does; \<open>ex_500\<close> is a message of 500 bytes.
\<close>

definition maxCloseReason :: nat where
  "maxCloseReason = 123"

definition ex_refused :: error where
  "ex_refused = GoError
     ''failed to close WebSocket: failed to marshal close frame: reason string max is 123'' None"

definition ex_strict :: transport where
  "ex_strict = ex_transport\<lparr>conn_Close :=
     \<lambda>status reason. if length reason > maxCloseReason then Some ex_refused else None\<rparr>"

definition ex_500 :: string where
  "ex_500 = replicate 500 (CHR ''x'')"


section \<open>Properties\<close>

subsection \<open>The stream adapter\<close>

lemma fetched_emit [simp]: "fetched (emit e wsc) = fetched wsc"
  and buf_emit [simp]: "buf (emit e wsc) = buf wsc"
  and written_emit [simp]: "written (emit e wsc) = written wsc"
  and params_emit [simp]: "params (emit e wsc) = params wsc"
  and trace_emit [simp]: "trace (emit e wsc) = trace wsc @ [e]"
  by (simp_all add: emit_def)

lemma Read_cases:
  "Read T lenp wsc =
     (let p = pendingBytes T wsc;
          w1 = (if buf wsc = None
                then emit (ConnRead (fst (conn_Read T (fetched wsc))) (snd (conn_Read T (fetched wsc))))
                       ((emit (AdapterRead lenp) wsc)\<lparr>buf := fst (conn_Read T (fetched wsc)), fetched := fetched wsc + 1\<rparr>)
                else emit (AdapterRead lenp) wsc)
      in if buf wsc = None \<and> snd (conn_Read T (fetched wsc)) \<noteq> None
         then (ReadResult (length p) (snd (conn_Read T (fetched wsc))) [], w1)
         else if length p > lenp
         then (ReadResult lenp None (take lenp p), w1\<lparr>buf := Some (drop lenp p)\<rparr>)
         else (ReadResult (length p) None p, w1\<lparr>buf := None\<rparr>))"
  by (cases "conn_Read T (fetched wsc)")
     (auto simp: Read_def fetch_def deliver_def pendingBytes_def Let_def bytes_def
           split: option.splits prod.splits)

text \<open>One call of Read that returns no error.\<close>

lemma Read_ok:
  assumes "Read T lenp wsc = (res, w1)" and "err res = None"
  shows "count res = min (length (pendingBytes T wsc)) lenp"
    and "copied res = take lenp (pendingBytes T wsc)"
    and "bytes (buf w1) = drop lenp (pendingBytes T wsc)"
    and "buf w1 = (if lenp < length (pendingBytes T wsc) then Some (drop lenp (pendingBytes T wsc)) else None)"
    and "fetched w1 = fetched wsc + (if buf wsc = None then 1 else 0)"
    and "filter isConnRead (trace w1) = filter isConnRead (trace wsc) @
           (if buf wsc = None then [ConnRead (fst (conn_Read T (fetched wsc))) None] else [])"
  using assms
  by (auto simp: Read_cases Let_def bytes_def split: if_splits)

lemma Read_err:
  assumes "Read T lenp wsc = (res, w1)" and "err res = Some e"
  shows "buf wsc = None" and "snd (conn_Read T (fetched wsc)) = Some e"
    and "fetched w1 = fetched wsc + 1" and "copied res = []"
  using assms
  by (auto simp: Read_cases Let_def bytes_def split: if_splits)

lemma pending_script:
  assumes H: "\<forall>i<length msgs. conn_Read T i = (Some (msgs ! i), None)"
    and "fetched wsc < length msgs" "buf wsc = None"
  shows "pendingBytes T wsc = msgs ! fetched wsc"
  using assms by (simp add: pendingBytes_def bytes_def)

lemma Read_step_inv:
  assumes H: "\<forall>i<length msgs. conn_Read T i = (Some (msgs ! i), None)"
    and R: "Read T lenp wsc = (res, w1)" and le: "fetched w1 \<le> length msgs"
  shows "err res = None \<and> copied res @ undelivered msgs w1 = undelivered msgs wsc"
proof (cases "buf wsc")
  case None
  have lt: "fetched wsc < length msgs"
    using R le None by (cases "err res") (auto dest: Read_ok(5) Read_err(3))
  have noerr: "err res = None"
    using R H lt by (cases "err res") (auto dest: Read_err(2))
  have p: "pendingBytes T wsc = msgs ! fetched wsc"
    using pending_script [OF H lt None] .
  have f: "fetched w1 = Suc (fetched wsc)"
    using Read_ok(5) [OF R noerr] None by simp
  have "copied res @ bytes (buf w1) = msgs ! fetched wsc"
    using Read_ok(2,3) [OF R noerr] p by simp
  then have "copied res @ undelivered msgs w1 = msgs ! fetched wsc @ concat (drop (Suc (fetched wsc)) msgs)"
    by (simp add: undelivered_def f)
  also have "\<dots> = undelivered msgs wsc"
    using None lt by (simp add: undelivered_def bytes_def flip: Cons_nth_drop_Suc)
  finally show ?thesis using noerr by simp
next
  case (Some b)
  have noerr: "err res = None"
    using R Some by (cases "err res") (auto dest: Read_err(1))
  have "pendingBytes T wsc = b" using Some by (simp add: pendingBytes_def)
  then show ?thesis
    using Read_ok(2,3,5) [OF R noerr] Some noerr by (simp add: undelivered_def bytes_def)
qed

lemma Read_fetched_mono: "Read T lenp wsc = (res, w1) \<Longrightarrow> fetched wsc \<le> fetched w1"
  by (auto simp: Read_cases Let_def split: if_splits)

lemma read_calls_fetched_mono:
  "read_calls T ls wsc = (out, wsc') \<Longrightarrow> fetched wsc \<le> fetched wsc'"
proof (induction ls arbitrary: wsc out wsc')
  case Nil
  then show ?case by simp
next
  case (Cons lenp ls)
  obtain res w1 where R: "Read T lenp wsc = (res, w1)" by (cases "Read T lenp wsc")
  show ?case
  proof (cases "err res")
    case None
    obtain o2 w2 where C: "read_calls T ls w1 = (o2, w2)" by (cases "read_calls T ls w1")
    have "w2 = wsc'" using Cons.prems R None C by simp
    then show ?thesis using Cons.IH [OF C] Read_fetched_mono [OF R] by simp
  next
    case (Some e)
    then have "w1 = wsc'" using Cons.prems R by simp
    then show ?thesis using Read_fetched_mono [OF R] by simp
  qed
qed

lemma read_calls_inv:
  assumes H: "\<forall>i<length msgs. conn_Read T i = (Some (msgs ! i), None)"
  shows "read_calls T ls wsc = (out, wsc') \<Longrightarrow> fetched wsc' \<le> length msgs
         \<Longrightarrow> out @ undelivered msgs wsc' = undelivered msgs wsc"
proof (induction ls arbitrary: wsc out wsc')
  case Nil
  then show ?case by simp
next
  case (Cons lenp ls)
  obtain res w1 where R: "Read T lenp wsc = (res, w1)" by (cases "Read T lenp wsc")
  obtain o2 w2 where C: "read_calls T ls w1 = (o2, w2)" by (cases "read_calls T ls w1")
  have le1: "fetched w1 \<le> length msgs"
  proof (cases "err res")
    case None
    then have "w2 = wsc'" using Cons.prems(1) R C by simp
    then show ?thesis using read_calls_fetched_mono [OF C] Cons.prems(2) by simp
  next
    case (Some e)
    then have "w1 = wsc'" using Cons.prems(1) R by simp
    then show ?thesis using Cons.prems(2) by simp
  qed
  have S: "err res = None" "copied res @ undelivered msgs w1 = undelivered msgs wsc"
    using Read_step_inv [OF H R le1] by simp_all
  have eq: "out = copied res @ o2" "wsc' = w2"
    using Cons.prems(1) R C S(1) by simp_all
  have "o2 @ undelivered msgs w2 = undelivered msgs w1"
    using Cons.IH [OF C] Cons.prems(2) eq by simp
  then show ?case using S(2) eq by simp
qed


lemma Read_progress:
  assumes H: "\<forall>i<length msgs. conn_Read T i = (Some (msgs ! i), None)"
    and le: "fetched wsc \<le> length msgs" and so: "buf wsc \<noteq> Some []"
    and pos: "0 < lenp" and todo: "0 < potential msgs wsc"
    and R: "Read T lenp wsc = (res, w1)"
  shows "fetched w1 \<le> length msgs \<and> buf w1 \<noteq> Some [] \<and>
         potential msgs w1 < potential msgs wsc \<and> err res = None"
proof (cases "buf wsc")
  case None
  have lt: "fetched wsc < length msgs"
  proof (rule ccontr)
    assume "\<not> fetched wsc < length msgs"
    then have "potential msgs wsc = 0"
      using None by (simp add: potential_def undelivered_def bytes_def)
    then show False using todo by simp
  qed
  have noerr: "err res = None"
    using R H lt by (cases "err res") (auto dest: Read_err(2))
  have p: "pendingBytes T wsc = msgs ! fetched wsc"
    using pending_script [OF H lt None] .
  have f: "fetched w1 = Suc (fetched wsc)"
    using Read_ok(5) [OF R noerr] None by simp
  have b: "bytes (buf w1) = drop lenp (msgs ! fetched wsc)"
    using Read_ok(3) [OF R noerr] p by simp
  have so1: "buf w1 \<noteq> Some []"
    using Read_ok(4) [OF R noerr] by (simp split: if_splits)
  have "undelivered msgs wsc = msgs ! fetched wsc @ concat (drop (Suc (fetched wsc)) msgs)"
    using None lt by (simp add: undelivered_def bytes_def flip: Cons_nth_drop_Suc)
  then have "potential msgs w1 < potential msgs wsc"
    using lt by (simp add: potential_def undelivered_def f b)
  then show ?thesis using f lt so1 noerr by simp
next
  case (Some b)
  have ne: "b \<noteq> []" using so Some by auto
  have noerr: "err res = None"
    using R Some by (cases "err res") (auto dest: Read_err(1))
  have p: "pendingBytes T wsc = b" using Some by (simp add: pendingBytes_def)
  have f: "fetched w1 = fetched wsc"
    using Read_ok(5) [OF R noerr] Some by simp
  have b1: "bytes (buf w1) = drop lenp b"
    using Read_ok(3) [OF R noerr] p by simp
  have so1: "buf w1 \<noteq> Some []"
    using Read_ok(4) [OF R noerr] by (simp split: if_splits)
  have "length (drop lenp b) < length b" using ne pos by simp
  moreover have "bytes (buf wsc) = b" using Some by (simp add: bytes_def)
  ultimately have "potential msgs w1 < potential msgs wsc"
    by (simp add: potential_def undelivered_def f b1)
  then show ?thesis using f le so1 noerr by simp
qed

lemma potential_zero:
  assumes z: "potential msgs wsc = 0" and le: "fetched wsc \<le> length msgs"
    and so: "buf wsc \<noteq> Some []"
  shows "fetched wsc = length msgs \<and> buf wsc = None \<and> undelivered msgs wsc = []"
proof (cases "buf wsc")
  case None
  then show ?thesis using z le by (simp add: potential_def undelivered_def bytes_def)
next
  case (Some b)
  then have "0 < length b" and "length b = 0"
    using so z by (simp_all add: potential_def undelivered_def bytes_def)
  then show ?thesis by simp
qed

lemma read_calls_complete:
  assumes H: "\<forall>i<length msgs. conn_Read T i = (Some (msgs ! i), None)"
  shows "fetched wsc \<le> length msgs \<Longrightarrow> buf wsc \<noteq> Some [] \<Longrightarrow> \<forall>l\<in>set ls. 0 < l
     \<Longrightarrow> potential msgs wsc \<le> length ls
     \<Longrightarrow> \<exists>m\<le>length ls. \<exists>wsc'. read_calls T (take m ls) wsc = (undelivered msgs wsc, wsc') \<and>
           fetched wsc' = length msgs \<and> buf wsc' = None"
proof (induction ls arbitrary: wsc)
  case Nil
  then have "fetched wsc = length msgs \<and> buf wsc = None \<and> undelivered msgs wsc = []"
    using potential_zero [of msgs wsc] by simp
  then show ?case by simp
next
  case (Cons lenp ls)
  show ?case
  proof (cases "potential msgs wsc = 0")
    case True
    then have "fetched wsc = length msgs \<and> buf wsc = None \<and> undelivered msgs wsc = []"
      using potential_zero [of msgs wsc] Cons.prems by simp
    then have "read_calls T (take 0 (lenp # ls)) wsc = (undelivered msgs wsc, wsc) \<and>
               fetched wsc = length msgs \<and> buf wsc = None" by simp
    then show ?thesis by blast
  next
    case False
    obtain res w1 where R: "Read T lenp wsc = (res, w1)" by (cases "Read T lenp wsc")
    have pos: "0 < lenp" using Cons.prems(3) by simp
    have P: "fetched w1 \<le> length msgs" "buf w1 \<noteq> Some []"
        "potential msgs w1 < potential msgs wsc" "err res = None"
      using Read_progress [OF H Cons.prems(1,2) pos _ R] False by simp_all
    have S: "copied res @ undelivered msgs w1 = undelivered msgs wsc"
      using Read_step_inv [OF H R P(1)] by simp
    have "potential msgs w1 \<le> length ls" using P(3) Cons.prems(4) by simp
    moreover have "\<forall>l\<in>set ls. 0 < l" using Cons.prems(3) by simp
    ultimately obtain m wsc' where M: "m \<le> length ls"
        "read_calls T (take m ls) w1 = (undelivered msgs w1, wsc')"
        "fetched wsc' = length msgs" "buf wsc' = None"
      using Cons.IH [OF P(1,2)] by blast
    have "read_calls T (take (Suc m) (lenp # ls)) wsc = (undelivered msgs wsc, wsc')"
      using R P(4) M(2) S by simp
    moreover have "Suc m \<le> length (lenp # ls)" using M(1) by simp
    ultimately show ?thesis using M(3,4) by blast
  qed
qed

subsection \<open>The shape of the loop's trace\<close>

lemma Read_trace:
  "Read T lenp wsc = (res, w1) \<Longrightarrow>
   \<exists>rs. trace w1 = trace wsc @ rs \<and> list_all isReadEvent rs \<and>
        written w1 = written wsc \<and> params w1 = params wsc"
  by (auto simp: Read_cases Let_def split: if_splits)

lemma run_handler_trace:
  "run_handler T h wsc = (r, w1) \<Longrightarrow>
   \<exists>rs. trace w1 = trace wsc @ rs @ [HandlerReturn r] \<and> list_all isReadEvent rs \<and>
        written w1 = written wsc \<and> params w1 = params wsc"
proof (induction h arbitrary: wsc)
  case (Return x)
  then show ?case by auto
next
  case (CallRead lenp k)
  obtain res w0 where R: "Read T lenp wsc = (res, w0)" by (cases "Read T lenp wsc")
  then have H: "run_handler T (k res) w0 = (r, w1)" using CallRead.prems by simp
  obtain rs0 where A: "trace w0 = trace wsc @ rs0" "list_all isReadEvent rs0"
      "written w0 = written wsc" "params w0 = params wsc"
    using Read_trace [OF R] by blast
  obtain rs1 where B: "trace w1 = trace w0 @ rs1 @ [HandlerReturn r]" "list_all isReadEvent rs1"
      "written w1 = written w0" "params w1 = params w0"
    using CallRead.IH [OF _ H] by blast
  have "trace w1 = trace wsc @ (rs0 @ rs1) @ [HandlerReturn r]" using A(1) B(1) by simp
  moreover have "list_all isReadEvent (rs0 @ rs1)" using A(2) B(2) by simp
  ultimately show ?case using A(3,4) B(3,4) by metis
qed

lemma Write_trace:
  "Write T p wsc = ((n, e), w1) \<Longrightarrow>
   trace w1 = trace wsc @ [ConnWrite (WriteDuration (params wsc)) MessageText p e] \<and>
   e = conn_Write T (written wsc) p \<and> n = (if e = None then length p else 0) \<and>
   written w1 = written wsc + 1 \<and> params w1 = params wsc \<and> buf w1 = buf wsc \<and>
   fetched w1 = fetched wsc"
  by (auto simp: Write_def Let_def split: option.splits)

lemma serve_loop_events:
  "serve_loop T rpc fuel i wsc = (r, w1) \<Longrightarrow>
   \<exists>es. trace w1 = trace wsc @ es \<and> loop_events (WriteDuration (params wsc)) r es \<and>
        params w1 = params wsc"
proof (induction fuel arbitrary: i wsc)
  case 0
  then show ?case by (auto intro: loop_events.running)
next
  case (Suc fuel)
  obtain hr wh where H: "run_handler T (rpc i) wsc = (hr, wh)"
    by (cases "run_handler T (rpc i) wsc")
  obtain rs where A: "trace wh = trace wsc @ rs @ [HandlerReturn hr]" "list_all isReadEvent rs"
      "params wh = params wsc"
    using run_handler_trace [OF H] by blast
  show ?case
  proof (cases hr)
    case (Inl e)
    then have "r = Some e" "w1 = wh" using Suc.prems H by simp_all
    then show ?thesis using A Inl by (auto intro: loop_events.handler_failed)
  next
    case (Inr resp)
    obtain n we ww where W: "Write T resp (emit (OnNewRequest ''any'') wh) = ((n, we), ww)"
      by (cases "Write T resp (emit (OnNewRequest ''any'') wh)") auto
    have B: "trace ww = trace wsc @ rs @ [HandlerReturn (Inr resp), OnNewRequest ''any'',
               ConnWrite (WriteDuration (params wsc)) MessageText resp we]"
        "params ww = params wsc"
      using Write_trace [OF W] A Inr by simp_all
    show ?thesis
    proof (cases we)
      case None
      then have L: "serve_loop T rpc fuel (Suc i) ww = (r, w1)"
        using Suc.prems H Inr W by simp
      obtain es where C: "trace w1 = trace ww @ es"
          "loop_events (WriteDuration (params ww)) r es" "params w1 = params ww"
        using Suc.IH [OF L] by blast
      have "loop_events (WriteDuration (params wsc)) r
              (rs @ HandlerReturn (Inr resp) # OnNewRequest ''any'' #
                 ConnWrite (WriteDuration (params wsc)) MessageText resp None # es)"
        using A(2) C(2) B(2) by (simp add: loop_events.cycle)
      then show ?thesis using B C None by auto
    next
      case (Some e)
      then have "r = Some e" "w1 = ww" using Suc.prems H Inr W by simp_all
      then show ?thesis using B Some A(2) by (auto intro: loop_events.write_failed)
    qed
  qed
qed

lemma read_event_others:
  "isReadEvent e \<Longrightarrow>
     \<not> isNotify e \<and> \<not> isResponse e \<and> \<not> isWriteOk e \<and> \<not> isWriteFailed e \<and>
     \<not> isFailure e \<and> \<not> isErrorLog e \<and> \<not> isConnWrite e \<and> closeCall e = []"
  by (cases e) simp_all

lemma filter_reads:
  assumes "list_all isReadEvent rs"
  shows "filter isNotify rs = []" "filter isResponse rs = []" "filter isWriteOk rs = []"
    "filter isWriteFailed rs = []" "filter isFailure rs = []" "filter isErrorLog rs = []"
    "filter isConnWrite rs = []" "concat (map closeCall rs) = []"
  using assms by (induction rs, simp_all add: read_event_others)+

lemma hd_reads:
  "list_all isReadEvent rs \<Longrightarrow> foldl hd_step (Some None) rs = Some None"
proof (induction rs)
  case Nil
  then show ?case by simp
next
  case (Cons a rs)
  then show ?case by (cases a) simp_all
qed

lemma loop_events_counts:
  "loop_events d r es \<Longrightarrow>
   notified es = responded es \<and> notified es = completed es + failedWrites es \<and>
   failedWrites es \<le> 1 \<and> (failedWrites es = 1 \<longrightarrow> r \<noteq> None)"
  by (induction rule: loop_events.induct)
     (simp_all add: notified_def responded_def completed_def failedWrites_def filter_reads)

lemma loop_events_quiet:
  "loop_events d r es \<Longrightarrow> closeCalls es = [] \<and> filter isErrorLog es = []"
  by (induction rule: loop_events.induct) (simp_all add: closeCalls_def filter_reads)

lemma loop_events_half_duplex:
  "loop_events d r es \<Longrightarrow>
   foldl hd_step (Some None) es = Some None \<or>
   (\<exists>p. foldl hd_step (Some None) es = Some (Some p) \<and> r \<noteq> None)"
  by (induction rule: loop_events.induct) (simp_all add: hd_reads)


section \<open>The claims\<close>

subsection \<open>Reading\<close>

lemma new_conn_start:
  "buf (newWebsocketConn ps) = None" "fetched (newWebsocketConn ps) = 0"
  "undelivered msgs (newWebsocketConn ps) = concat msgs"
  "potential msgs (newWebsocketConn ps) = length (concat msgs) + length msgs"
  by (simp_all add: newWebsocketConn_def undelivered_def potential_def bytes_def)

text \<open>
  C1. Let the transport deliver the messages \<open>msgs\<close>, \<open>N\<close> of them, as the results of
  its first \<open>N\<close> reads. Then:
  \<^item> every call of \<open>Read\<close> that returns no error copies \<open>min(len(pendingBytes), len(p))\<close>
    bytes, the front of the pending bytes, keeps the remainder, and fetches exactly one
    message if the buffer was nil and none otherwise;
  \<^item> a call made while undelivered bytes are buffered fetches nothing;
  \<^item> for calls with buffers of any lengths, zero included, made on a fresh connection,
    as long as no more than \<open>N\<close> messages were fetched, the bytes returned so far followed
    by the bytes not yet delivered are the concatenation of the messages: the calls return
    the original bytes in order, none lost, none twice;
  \<^item> for calls with non-empty buffers, however small, at most \<open>L + N\<close> calls return the
    whole concatenation of length \<open>L\<close>, and at that point exactly \<open>N\<close> messages have been
    fetched and nothing is buffered. (A call with an empty buffer copies
    \<open>min(len(pendingBytes), 0) = 0\<close> bytes, so calls with empty buffers alone deliver
    nothing.)
\<close>

theorem C1_read_reconstructs:
  assumes script: "\<forall>i<length msgs. conn_Read T i = (Some (msgs ! i), None)"
  shows "(\<forall>lenp wsc res wsc'. Read T lenp wsc = (res, wsc') \<and> err res = None \<longrightarrow>
            count res = min (length (pendingBytes T wsc)) lenp \<and>
            copied res = take (count res) (pendingBytes T wsc) \<and>
            bytes (buf wsc') = drop (count res) (pendingBytes T wsc) \<and>
            fetched wsc' = fetched wsc + (if buf wsc = None then 1 else 0)) \<and>
         (\<forall>lenp wsc. bytes (buf wsc) \<noteq> [] \<longrightarrow>
            fetched (snd (Read T lenp wsc)) = fetched wsc \<and>
            err (fst (Read T lenp wsc)) = None) \<and>
         (\<forall>ls out wsc'. read_calls T ls (newWebsocketConn ps) = (out, wsc') \<and>
              fetched wsc' \<le> length msgs \<longrightarrow>
            out @ undelivered msgs wsc' = concat msgs) \<and>
         (\<forall>ls. (\<forall>l\<in>set ls. 0 < l) \<and> length (concat msgs) + length msgs \<le> length ls \<longrightarrow>
            (\<exists>m\<le>length ls. \<exists>wsc'.
               read_calls T (take m ls) (newWebsocketConn ps) = (concat msgs, wsc') \<and>
               fetched wsc' = length msgs \<and> buf wsc' = None))"
proof (intro conjI allI impI)
  fix lenp wsc res wsc'
  assume a: "Read T lenp wsc = (res, wsc') \<and> err res = None"
  then have R: "Read T lenp wsc = (res, wsc')" and E: "err res = None" by simp_all
  have c: "count res = min (length (pendingBytes T wsc)) lenp" using Read_ok(1) [OF R E] .
  show "count res = min (length (pendingBytes T wsc)) lenp" using c .
  show "copied res = take (count res) (pendingBytes T wsc)"
    using Read_ok(2) [OF R E] c by (simp add: min_def)
  show "bytes (buf wsc') = drop (count res) (pendingBytes T wsc)"
    using Read_ok(3) [OF R E] c by (simp add: min_def)
  show "fetched wsc' = fetched wsc + (if buf wsc = None then 1 else 0)"
    using Read_ok(5) [OF R E] .
next
  fix lenp and wsc :: websocketConn
  assume "bytes (buf wsc) \<noteq> []"
  then have "buf wsc \<noteq> None" by (cases "buf wsc") (simp_all add: bytes_def)
  then show "fetched (snd (Read T lenp wsc)) = fetched wsc"
    and "err (fst (Read T lenp wsc)) = None"
    by (auto simp: Read_cases Let_def)
next
  fix ls out wsc'
  assume "read_calls T ls (newWebsocketConn ps) = (out, wsc') \<and> fetched wsc' \<le> length msgs"
  then show "out @ undelivered msgs wsc' = concat msgs"
    using read_calls_inv [OF script, of ls "newWebsocketConn ps" out wsc']
    by (simp add: new_conn_start)
next
  fix ls :: "nat list"
  assume a: "(\<forall>l\<in>set ls. 0 < l) \<and> length (concat msgs) + length msgs \<le> length ls"
  have "\<exists>m\<le>length ls. \<exists>wsc'.
          read_calls T (take m ls) (newWebsocketConn ps)
            = (undelivered msgs (newWebsocketConn ps), wsc') \<and>
          fetched wsc' = length msgs \<and> buf wsc' = None"
    using a by (intro read_calls_complete [OF script]) (simp_all add: new_conn_start)
  then show "\<exists>m\<le>length ls. \<exists>wsc'.
          read_calls T (take m ls) (newWebsocketConn ps) = (concat msgs, wsc') \<and>
          fetched wsc' = length msgs \<and> buf wsc' = None"
    by (simp add: new_conn_start)
qed

theorem C1_read_reconstructs_witness:
  "conn_Read ex_transport 0 = (Some (ex_msgs ! 0), None) \<and>
   conn_Read ex_transport 1 = (Some (ex_msgs ! 1), None) \<and>
   conn_Read ex_transport 2 = (Some (ex_msgs ! 2), None) \<and> length ex_msgs = 3 \<and>
   (\<exists>m\<le>length [1, 1, 1, 1, 1, 1, 1, 1::nat]. \<exists>wsc'.
      read_calls ex_transport (take m [1, 1, 1, 1, 1, 1, 1, 1])
        (newWebsocketConn DefaultWebsocketConnParams) = (concat ex_msgs, wsc') \<and>
      fetched wsc' = length ex_msgs \<and> buf wsc' = None)"
proof -
  have h: "\<forall>i<length ex_msgs. conn_Read ex_transport i = (Some (ex_msgs ! i), None)"
    by (simp add: ex_transport_def ex_msgs_def)
  have sizes: "(\<forall>l\<in>set [1, 1, 1, 1, 1, 1, 1, 1::nat]. 0 < l) \<and>
      length (concat ex_msgs) + length ex_msgs \<le> length [1, 1, 1, 1, 1, 1, 1, 1::nat]"
    by (simp add: ex_msgs_def)
  have "\<forall>ls. (\<forall>l\<in>set ls. 0 < l) \<and> length (concat ex_msgs) + length ex_msgs \<le> length ls \<longrightarrow>
            (\<exists>m\<le>length ls. \<exists>wsc'.
               read_calls ex_transport (take m ls) (newWebsocketConn DefaultWebsocketConnParams)
                 = (concat ex_msgs, wsc') \<and>
               fetched wsc' = length ex_msgs \<and> buf wsc' = None)"
    using C1_read_reconstructs [OF h, of DefaultWebsocketConnParams] by blast
  from this [rule_format, OF sizes]
  have "\<exists>m\<le>length [1, 1, 1, 1, 1, 1, 1, 1::nat]. \<exists>wsc'.
      read_calls ex_transport (take m [1, 1, 1, 1, 1, 1, 1, 1])
        (newWebsocketConn DefaultWebsocketConnParams) = (concat ex_msgs, wsc') \<and>
      fetched wsc' = length ex_msgs \<and> buf wsc' = None" .
  moreover have "conn_Read ex_transport 0 = (Some (ex_msgs ! 0), None) \<and>
      conn_Read ex_transport 1 = (Some (ex_msgs ! 1), None) \<and>
      conn_Read ex_transport 2 = (Some (ex_msgs ! 2), None) \<and> length ex_msgs = 3"
    by (simp add: ex_transport_def ex_msgs_def)
  ultimately show ?thesis by blast
qed

text \<open>
  C10. If the buffer is nil and the transport delivers a message of length zero, \<open>Read\<close>
  returns the count 0 and no error, whatever the caller's buffer, has copied nothing,
  has made the one fetch, and leaves the buffer nil.
\<close>

theorem C10_empty_message:
  assumes "buf wsc = None" and "conn_Read T (fetched wsc) = (Some [], None)"
  shows "count (fst (Read T lenp wsc)) = 0 \<and> err (fst (Read T lenp wsc)) = None \<and>
         copied (fst (Read T lenp wsc)) = [] \<and> buf (snd (Read T lenp wsc)) = None \<and>
         fetched (snd (Read T lenp wsc)) = fetched wsc + 1"
  using assms by (simp add: Read_cases Let_def pendingBytes_def bytes_def)

theorem C10_empty_message_witness:
  "buf (newWebsocketConn DefaultWebsocketConnParams) = None \<and>
   conn_Read (ex_transport\<lparr>conn_Read := \<lambda>i. (Some [], None)\<rparr>)
     (fetched (newWebsocketConn DefaultWebsocketConnParams)) = (Some [], None) \<and>
   count (fst (Read (ex_transport\<lparr>conn_Read := \<lambda>i. (Some [], None)\<rparr>) 4
                 (newWebsocketConn DefaultWebsocketConnParams))) = 0 \<and>
   err (fst (Read (ex_transport\<lparr>conn_Read := \<lambda>i. (Some [], None)\<rparr>) 4
                 (newWebsocketConn DefaultWebsocketConnParams))) = None \<and>
   buf (snd (Read (ex_transport\<lparr>conn_Read := \<lambda>i. (Some [], None)\<rparr>) 4
                 (newWebsocketConn DefaultWebsocketConnParams))) = None"
proof -
  have h1: "buf (newWebsocketConn DefaultWebsocketConnParams) = None"
    by (simp add: newWebsocketConn_def)
  have h2: "conn_Read (ex_transport\<lparr>conn_Read := \<lambda>i. (Some [], None)\<rparr>)
     (fetched (newWebsocketConn DefaultWebsocketConnParams)) = (Some [], None)"
    by simp
  show ?thesis using h1 h2 C10_empty_message [OF h1 h2, of 4] by simp
qed

subsection \<open>Writing\<close>

text \<open>
  C5. A call of \<open>Write\<close> with payload \<open>p\<close> that returns no error returns the count
  \<open>len(p)\<close> and has made exactly one \<open>conn.Write\<close>: one message of type text whose
  content is \<open>p\<close>, sent with the configured write timeout. Nothing is held back for a
  later write: the adapter's buffer is untouched.
\<close>

theorem C5_write_one_message:
  assumes "Write T p wsc = ((n, None), wsc')"
  shows "n = length p \<and>
         filter isConnWrite (trace wsc') =
           filter isConnWrite (trace wsc) @
             [ConnWrite (WriteDuration (params wsc)) MessageText p None] \<and>
         written wsc' = written wsc + 1 \<and> buf wsc' = buf wsc"
  using Write_trace [OF assms] by simp

theorem C5_write_one_message_witness:
  "fst (Write ex_transport ''{}'' (newWebsocketConn DefaultWebsocketConnParams)) = (2, None) \<and>
   filter isConnWrite (trace (snd (Write ex_transport ''{}''
       (newWebsocketConn DefaultWebsocketConnParams)))) =
     [ConnWrite (5 * Second) MessageText ''{}'' None]"
proof -
  obtain w where h: "Write ex_transport ''{}'' (newWebsocketConn DefaultWebsocketConnParams)
      = ((length ''{}'', None), w)"
    by (simp add: Write_def ex_transport_def)
  show ?thesis
    using h C5_write_one_message [OF h]
    by (simp add: newWebsocketConn_def DefaultWebsocketConnParams_def)
qed

subsection \<open>The lifecycle manager\<close>

lemma Contains_iff: "Contains s substr \<longleftrightarrow> (\<exists>ps ss. s = ps @ substr @ ss)"
proof (induction s)
  case Nil
  then show ?case by auto
next
  case (Cons c s)
  show ?case
  proof
    assume "Contains (c # s) substr"
    then consider "prefix substr (c # s)" | "Contains s substr" by auto
    then show "\<exists>ps ss. c # s = ps @ substr @ ss"
    proof cases
      case 1
      then obtain ss where "c # s = substr @ ss" by (auto simp: prefix_def)
      then have "c # s = [] @ substr @ ss" by simp
      then show ?thesis by blast
    next
      case 2
      then obtain ps ss where "s = ps @ substr @ ss" using Cons.IH by blast
      then have "c # s = (c # ps) @ substr @ ss" by simp
      then show ?thesis by blast
    qed
  next
    assume "\<exists>ps ss. c # s = ps @ substr @ ss"
    then obtain ps ss where E: "c # s = ps @ substr @ ss" by blast
    show "Contains (c # s) substr"
    proof (cases ps)
      case Nil
      then have "prefix substr (c # s)" using E by (simp add: prefix_def)
      then show ?thesis by simp
    next
      case (Cons a ps')
      then have "s = ps' @ substr @ ss" using E by simp
      then have "Contains s substr" using Cons.IH by blast
      then show ?thesis by simp
    qed
  qed
qed


lemma shutdown_closed:
  "AsCloseError e = Some code \<Longrightarrow>
   trace (shutdown T e wsc) =
     trace wsc @ [Log InfoLevel ''Client closed websocket connection'' ''status'' (StatusValue code)]"
  by (simp add: shutdown_def)

lemma shutdown_internal:
  "AsCloseError e = None \<Longrightarrow>
   trace (shutdown T e wsc) =
     trace wsc @
     [Log WarnLevel ''Closing websocket connection due to internal error'' ''err'' (ErrValue e),
      ConnClose StatusInternalError (closeReason (Error e))
        (conn_Close T StatusInternalError (closeReason (Error e)))] @
     (case conn_Close T StatusInternalError (closeReason (Error e)) of
        None \<Rightarrow> []
      | Some e' \<Rightarrow>
          if Contains (Error e') ''already wrote close'' then []
          else [Log ErrorLevel ''Failed to close websocket connection'' ''err'' (ErrValue e')])"
  by (simp add: shutdown_def Let_def split: option.splits)

lemma shutdown_counts:
  "notified (trace (shutdown T e wsc)) = notified (trace wsc)"
  "responded (trace (shutdown T e wsc)) = responded (trace wsc)"
  "completed (trace (shutdown T e wsc)) = completed (trace wsc)"
  "failedWrites (trace (shutdown T e wsc)) = failedWrites (trace wsc)"
  by (cases "AsCloseError e";
      simp add: shutdown_closed shutdown_internal notified_def responded_def completed_def
        failedWrites_def split: option.splits)+

lemma shutdown_hd:
  "foldl hd_step s (trace (shutdown T e wsc)) = foldl hd_step s (trace wsc)"
proof -
  show ?thesis
    by (cases "AsCloseError e"; cases "foldl hd_step s (trace wsc)";
        simp add: shutdown_closed shutdown_internal split: option.splits)
qed

lemma shutdown_no_io:
  "filter isReadEvent (trace (shutdown T e wsc)) = filter isReadEvent (trace wsc)"
  "filter isConnWrite (trace (shutdown T e wsc)) = filter isConnWrite (trace wsc)"
  by (cases "AsCloseError e"; simp add: shutdown_closed shutdown_internal split: option.splits)+

lemma loop_from_new:
  assumes "serve_loop T rpc fuel 0 (newWebsocketConn ps) = (r, wsc)"
  shows "\<exists>es. trace wsc = SetReadLimit (ReadLimit ps) # es \<and>
              loop_events (WriteDuration ps) r es"
  using serve_loop_events [OF assms] by (auto simp: newWebsocketConn_def)

lemma ServeHTTP_cases:
  assumes "ServeHTTP ws T rpc fuel = Some tr"
  shows "(\<exists>e. Accept T = Some e \<and>
              tr = [Log ErrorLevel ''Failed to upgrade connection'' ''err'' (ErrValue e)]) \<or>
         (Accept T = None \<and>
          (\<exists>e wsc. serve_loop T rpc fuel 0 (newWebsocketConn (connParams ws)) = (Some e, wsc) \<and>
                   tr = trace (shutdown T e wsc)))"
  using assms by (auto simp: ServeHTTP_def split: option.splits prod.splits)

lemma ServeHTTP_returns:
  assumes "Accept T = None"
    and "fst (serve_loop T rpc fuel 0 (newWebsocketConn (connParams ws))) = Some e"
  shows "ServeHTTP ws T rpc fuel =
           Some (trace (shutdown T e (snd (serve_loop T rpc fuel 0 (newWebsocketConn (connParams ws))))))"
  using assms by (auto simp: ServeHTTP_def split: option.splits prod.splits)

lemma loop_counts:
  assumes "serve_loop T rpc fuel 0 (newWebsocketConn ps) = (r, wsc)"
  shows "notified (trace wsc) = responded (trace wsc) \<and>
         notified (trace wsc) = completed (trace wsc) + failedWrites (trace wsc) \<and>
         failedWrites (trace wsc) \<le> 1"
proof -
  obtain es where E: "trace wsc = SetReadLimit (ReadLimit ps) # es"
      "loop_events (WriteDuration ps) r es"
    using loop_from_new [OF assms] by blast
  have "notified (trace wsc) = notified es" "responded (trace wsc) = responded es"
    "completed (trace wsc) = completed es" "failedWrites (trace wsc) = failedWrites es"
    using E(1) by (simp_all add: notified_def responded_def completed_def failedWrites_def)
  then show ?thesis using loop_events_counts [OF E(2)] by simp
qed

lemma loop_half_duplex:
  assumes "serve_loop T rpc fuel 0 (newWebsocketConn ps) = (r, wsc)"
  shows "foldl hd_step (Some None) (trace wsc) \<noteq> None"
proof -
  obtain es where E: "trace wsc = SetReadLimit (ReadLimit ps) # es"
      "loop_events (WriteDuration ps) r es"
    using loop_from_new [OF assms] by blast
  show ?thesis using loop_events_half_duplex [OF E(2)] E(1) by auto
qed

lemma loop_quiet:
  assumes "serve_loop T rpc fuel 0 (newWebsocketConn ps) = (r, wsc)"
  shows "closeCalls (trace wsc) = []" "filter isErrorLog (trace wsc) = []"
proof -
  obtain es where E: "trace wsc = SetReadLimit (ReadLimit ps) # es"
      "loop_events (WriteDuration ps) r es"
    using loop_from_new [OF assms] by blast
  show "closeCalls (trace wsc) = []" "filter isErrorLog (trace wsc) = []"
    using loop_events_quiet [OF E(2)] E(1) by (simp_all add: closeCalls_def)
qed



lemma closeReason_take: "closeReason m = take 125 m"
  by (simp add: closeReason_def closeReasonMaxBytes_def)

lemma order_reads:
  "list_all isReadEvent rs \<Longrightarrow> foldl order_step Reading rs = Reading"
proof (induction rs)
  case Nil
  then show ?case by simp
next
  case (Cons a rs)
  then show ?case by (cases a) simp_all
qed

lemma loop_events_order:
  "loop_events d r es \<Longrightarrow>
   foldl order_step Reading es = (case r of None \<Rightarrow> Reading | Some e \<Rightarrow> Left)"
  by (induction rule: loop_events.induct) (simp_all add: order_reads)

lemma loop_events_failed_write:
  "loop_events d r es \<Longrightarrow>
   (failedWrites es = 1) =
     (\<exists>p e. r = Some e \<and> es \<noteq> [] \<and> last es = ConnWrite d MessageText p (Some e))"
proof (induction rule: loop_events.induct)
  case running
  then show ?case by (simp add: failedWrites_def)
next
  case (handler_failed rs e)
  then show ?case by (simp add: failedWrites_def filter_reads)
next
  case (write_failed rs e resp)
  then show ?case by (simp add: failedWrites_def filter_reads)
next
  case (cycle rs r es resp)
  have "failedWrites
          (rs @ HandlerReturn (Inr resp) # OnNewRequest ''any'' # ConnWrite d MessageText resp None # es)
        = failedWrites es"
    using cycle.hyps(1) by (simp add: failedWrites_def filter_reads)
  moreover have "es \<noteq> [] \<Longrightarrow>
      last (rs @ HandlerReturn (Inr resp) # OnNewRequest ''any'' # ConnWrite d MessageText resp None # es)
      = last es"
    by simp
  moreover have "es = [] \<Longrightarrow> failedWrites es \<noteq> 1" by (simp add: failedWrites_def)
  ultimately show ?case using cycle.IH by (cases "es = []") auto
qed

lemma shutdown_order_full:
  assumes "foldl order_step Reading (trace wsc) = Left"
  shows "foldl order_step Reading (trace (shutdown T e wsc)) = Left"
  using assms
  by (cases "AsCloseError e"; simp add: shutdown_closed shutdown_internal split: option.splits)

lemma loop_order:
  assumes "serve_loop T rpc fuel 0 (newWebsocketConn ps) = (r, wsc)"
  shows "notify_order (trace wsc) = (case r of None \<Rightarrow> Reading | Some e \<Rightarrow> Left)"
    and "(failedWrites (trace wsc) = 1) =
           (\<exists>p e. r = Some e \<and> last (trace wsc) = ConnWrite (WriteDuration ps) MessageText p (Some e))"
proof -
  obtain es where E: "trace wsc = SetReadLimit (ReadLimit ps) # es"
      "loop_events (WriteDuration ps) r es"
    using loop_from_new [OF assms] by blast
  show "notify_order (trace wsc) = (case r of None \<Rightarrow> Reading | Some e \<Rightarrow> Left)"
    using loop_events_order [OF E(2)] E(1) by (simp add: notify_order_def)
  have "failedWrites (trace wsc) = failedWrites es"
    using E(1) by (simp add: failedWrites_def)
  moreover have "last (trace wsc) = ConnWrite (WriteDuration ps) MessageText p (Some e)
      \<longleftrightarrow> es \<noteq> [] \<and> last es = ConnWrite (WriteDuration ps) MessageText p (Some e)" for p e
    using E(1) by auto
  ultimately show "(failedWrites (trace wsc) = 1) =
           (\<exists>p e. r = Some e \<and> last (trace wsc) = ConnWrite (WriteDuration ps) MessageText p (Some e))"
    using loop_events_failed_write [OF E(2)] by simp
qed


lemma serve_loop_handler_error:
  assumes "run_handler T (rpc i) wsc = (Inl e, w1)"
  shows "serve_loop T rpc (Suc fuel) i wsc = (Some e, w1)"
  using assms by simp






lemma read_event_unclosed: "isReadEvent e \<Longrightarrow> closedCall e = []"
  by (cases e) simp_all

lemma reads_unclosed: "list_all isReadEvent rs \<Longrightarrow> concat (map closedCall rs) = []"
  by (induction rs) (simp_all add: read_event_unclosed)

lemma loop_events_unclosed:
  "loop_events d r es \<Longrightarrow> concat (map closedCall es) = []"
  by (induction rule: loop_events.induct) (simp_all add: reads_unclosed)

text \<open>
  C3, as the code has it. The listener is called once for every response that
  \<open>HandleReader\<close> returns, right after the return and right before the write of that
  response, whether the write then succeeds or fails; an iteration in which the core
  returns an error calls it not at all. In every run of the loop, finished or still
  running, the trace keeps that order, and:
  \<^item> the number of calls of the listener is the number of responses the core returned;
  \<^item> it is the number of writes that succeeded plus the number of writes that failed;
  \<^item> at most one write fails, and one does exactly when the loop was left with the
    error of a write, which is then the last event of the loop: the iteration whose
    write fails has already called the listener.

  The same order and counts hold of every finished \<open>ServeHTTP\<close>.
\<close>

theorem C3_notify_before_write:
  "(\<forall>r wsc. serve_loop T rpc fuel 0 (newWebsocketConn ps) = (r, wsc) \<longrightarrow>
      notify_order (trace wsc) = (case r of None \<Rightarrow> Reading | Some e \<Rightarrow> Left) \<and>
      notified (trace wsc) = responded (trace wsc) \<and>
      notified (trace wsc) = completed (trace wsc) + failedWrites (trace wsc) \<and>
      failedWrites (trace wsc) \<le> 1 \<and>
      ((failedWrites (trace wsc) = 1) =
         (\<exists>p e. r = Some e \<and>
            last (trace wsc) = ConnWrite (WriteDuration ps) MessageText p (Some e)))) \<and>
   (\<forall>tr. ServeHTTP ws T rpc fuel = Some tr \<longrightarrow>
      notify_order tr = (if Accept T = None then Left else Reading) \<and>
      notified tr = responded tr \<and>
      notified tr = completed tr + failedWrites tr \<and>
      failedWrites tr \<le> 1)"
proof (intro conjI allI impI)
  fix r wsc
  assume L: "serve_loop T rpc fuel 0 (newWebsocketConn ps) = (r, wsc)"
  show "notify_order (trace wsc) = (case r of None \<Rightarrow> Reading | Some e \<Rightarrow> Left)"
    using loop_order(1) [OF L] .
  show "(failedWrites (trace wsc) = 1) =
         (\<exists>p e. r = Some e \<and>
            last (trace wsc) = ConnWrite (WriteDuration ps) MessageText p (Some e))"
    using loop_order(2) [OF L] .
  from loop_counts [OF L]
  show "notified (trace wsc) = responded (trace wsc)"
    and "notified (trace wsc) = completed (trace wsc) + failedWrites (trace wsc)"
    and "failedWrites (trace wsc) \<le> 1"
    by simp_all
next
  fix tr
  assume S: "ServeHTTP ws T rpc fuel = Some tr"
  have "notify_order tr = (if Accept T = None then Left else Reading) \<and>
        notified tr = responded tr \<and> notified tr = completed tr + failedWrites tr \<and>
        failedWrites tr \<le> 1"
    using ServeHTTP_cases [OF S]
  proof (elim disjE exE conjE)
    fix e
    assume "Accept T = Some e"
      and "tr = [Log ErrorLevel ''Failed to upgrade connection'' ''err'' (ErrValue e)]"
    then show ?thesis
      by (simp add: notify_order_def notified_def responded_def completed_def failedWrites_def)
  next
    fix e wsc
    assume A: "Accept T = None"
      and L: "serve_loop T rpc fuel 0 (newWebsocketConn (connParams ws)) = (Some e, wsc)"
      and tr: "tr = trace (shutdown T e wsc)"
    have "foldl order_step Reading (trace wsc) = Left"
      using loop_order(1) [OF L] by (simp add: notify_order_def)
    then have "notify_order tr = Left"
      using tr by (simp add: notify_order_def shutdown_order_full)
    then show ?thesis
      using A tr loop_counts [OF L] by (simp add: shutdown_counts)
  qed
  then show "notify_order tr = (if Accept T = None then Left else Reading)"
    and "notified tr = responded tr"
    and "notified tr = completed tr + failedWrites tr"
    and "failedWrites tr \<le> 1"
    by simp_all
qed

theorem C3_notify_before_write_witness:
  "\<exists>tr. ServeHTTP NewWebsocket ex_stalled (\<lambda>i. echo) 1 = Some tr \<and>
     notify_order tr = Left \<and> notified tr = 1 \<and> responded tr = 1 \<and>
     completed tr = 0 \<and> failedWrites tr = 1"
proof -
  have "map_option completed (ServeHTTP NewWebsocket ex_stalled (\<lambda>i. echo) 1) = Some 0"
    by code_simp
  then obtain tr where t: "ServeHTTP NewWebsocket ex_stalled (\<lambda>i. echo) 1 = Some tr"
      "completed tr = 0"
    by auto
  have f: "map_option failedWrites (ServeHTTP NewWebsocket ex_stalled (\<lambda>i. echo) 1) = Some 1"
    by code_simp
  have a: "Accept ex_stalled = None" by (simp add: ex_stalled_def ex_transport_def)
  have "notify_order tr = (if Accept ex_stalled = None then Left else Reading) \<and>
      notified tr = responded tr \<and>
      notified tr = completed tr + failedWrites tr \<and>
      failedWrites tr \<le> 1"
    using t(1) C3_notify_before_write [of ex_stalled "\<lambda>i. echo" 1 DefaultWebsocketConnParams NewWebsocket]
    by blast
  then show ?thesis using t f a by auto
qed

text \<open>The order does reject a call of the listener that comes after the write.\<close>

lemma notify_order_rejects_late_call:
  "notify_order [AdapterRead 8, ConnRead (Some ''a'') None, HandlerReturn (Inr ''a''),
      ConnWrite 5 MessageText ''a'' None, OnNewRequest ''any''] = Violated"
  by (simp add: notify_order_def)

text \<open>
  The claim as worded asks for no call in an iteration whose write fails. On a transport
  whose first write fails, that iteration has called the listener: one call, no
  completed iteration.
\<close>

theorem C3_counterexample:
  "map_option notified (ServeHTTP NewWebsocket ex_stalled (\<lambda>i. echo) 1) = Some 1 \<and>
   map_option completed (ServeHTTP NewWebsocket ex_stalled (\<lambda>i. echo) 1) = Some 0 \<and>
   map_option failedWrites (ServeHTTP NewWebsocket ex_stalled (\<lambda>i. echo) 1) = Some 1"
  by code_simp

text \<open>
  C9. Every trace of the loop, after any number of iterations, and every trace of a
  finished \<open>ServeHTTP\<close> is half-duplex: once \<open>HandleReader\<close> has returned a response,
  neither the adapter nor the transport is read, and no other response is produced,
  until that response has been written as one text message; after a write that fails
  nothing is read at all.
\<close>

theorem C9_half_duplex:
  "(\<forall>r wsc. serve_loop T rpc fuel 0 (newWebsocketConn ps) = (r, wsc) \<longrightarrow>
      half_duplex (trace wsc)) \<and>
   (\<forall>tr. ServeHTTP ws T rpc fuel = Some tr \<longrightarrow> half_duplex tr)"
proof (intro conjI allI impI)
  fix r wsc
  assume "serve_loop T rpc fuel 0 (newWebsocketConn ps) = (r, wsc)"
  then show "half_duplex (trace wsc)"
    using loop_half_duplex by (simp add: half_duplex_def)
next
  fix tr
  assume S: "ServeHTTP ws T rpc fuel = Some tr"
  show "half_duplex tr"
    using ServeHTTP_cases [OF S]
  proof (elim disjE exE conjE)
    fix e
    assume "tr = [Log ErrorLevel ''Failed to upgrade connection'' ''err'' (ErrValue e)]"
    then show ?thesis by (simp add: half_duplex_def)
  next
    fix e wsc
    assume "serve_loop T rpc fuel 0 (newWebsocketConn (connParams ws)) = (Some e, wsc)"
      and "tr = trace (shutdown T e wsc)"
    then show ?thesis
      using loop_half_duplex [of T rpc fuel "connParams ws" "Some e" wsc]
      by (simp add: half_duplex_def shutdown_hd)
  qed
qed

theorem C9_half_duplex_witness:
  "\<exists>tr. ServeHTTP NewWebsocket ex_transport (\<lambda>i. echo) 4 = Some tr \<and> half_duplex tr \<and>
        completed tr = 3"
proof -
  have "map_option completed (ServeHTTP NewWebsocket ex_transport (\<lambda>i. echo) 4) = Some 3"
    by code_simp
  then obtain tr where t: "ServeHTTP NewWebsocket ex_transport (\<lambda>i. echo) 4 = Some tr"
      "completed tr = 3"
    by auto
  show ?thesis
    using t C9_half_duplex [of ex_transport "\<lambda>i. echo" 4 DefaultWebsocketConnParams NewWebsocket]
    by blast
qed

text \<open>The check does reject a read that comes before the pending response is written.\<close>

lemma half_duplex_rejects_pipelining:
  "\<not> half_duplex [AdapterRead 8, ConnRead (Some ''a'') None, HandlerReturn (Inr ''b''),
      AdapterRead 8]"
  by (simp add: half_duplex_def)

text \<open>
  C4. When the loop is left with an error in which \<open>errors.As\<close> finds a close error,
  \<open>ServeHTTP\<close> returns; what it adds to the loop's trace is one log entry of level info
  with the status code the peer reported. It calls \<open>conn.Close\<close> at no point, so it sends
  no close frame, and it logs nothing at level error.
\<close>

theorem C4_peer_close:
  assumes "Accept T = None"
    and "fst (serve_loop T rpc fuel 0 (newWebsocketConn (connParams ws))) = Some e"
    and "AsCloseError e = Some code"
  shows "\<exists>tr. ServeHTTP ws T rpc fuel = Some tr \<and>
           tr = trace (snd (serve_loop T rpc fuel 0 (newWebsocketConn (connParams ws)))) @
                  [Log InfoLevel ''Client closed websocket connection'' ''status''
                     (StatusValue code)] \<and>
           closeCalls tr = [] \<and> filter isErrorLog tr = []"
proof -
  let ?wsc = "snd (serve_loop T rpc fuel 0 (newWebsocketConn (connParams ws)))"
  have L: "serve_loop T rpc fuel 0 (newWebsocketConn (connParams ws)) = (Some e, ?wsc)"
    using assms(2) by (cases "serve_loop T rpc fuel 0 (newWebsocketConn (connParams ws))") simp
  have "ServeHTTP ws T rpc fuel = Some (trace (shutdown T e ?wsc))"
    using ServeHTTP_returns [OF assms(1,2)] .
  then show ?thesis
    using loop_quiet [OF L] by (simp add: shutdown_closed [OF assms(3)] closeCalls_def)
qed

theorem C4_peer_close_witness:
  "Accept ex_transport = None \<and>
   fst (serve_loop ex_transport (\<lambda>i. echo) 4 0 (newWebsocketConn (connParams NewWebsocket)))
     = Some ex_closed \<and>
   AsCloseError ex_closed = Some 1000 \<and>
   (\<exists>tr. ServeHTTP NewWebsocket ex_transport (\<lambda>i. echo) 4 = Some tr \<and>
      tr = trace (snd (serve_loop ex_transport (\<lambda>i. echo) 4 0
                   (newWebsocketConn (connParams NewWebsocket)))) @
             [Log InfoLevel ''Client closed websocket connection'' ''status''
                (StatusValue 1000)] \<and>
      closeCalls tr = [] \<and> filter isErrorLog tr = [])"
proof -
  have h1: "Accept ex_transport = None" by (simp add: ex_transport_def)
  have h2: "fst (serve_loop ex_transport (\<lambda>i. echo) 4 0
                  (newWebsocketConn (connParams NewWebsocket))) = Some ex_closed"
    by code_simp
  have h3: "AsCloseError ex_closed = Some 1000" by (simp add: ex_closed_def)
  show ?thesis using h1 h2 h3 C4_peer_close [OF h1 h2 h3] by blast
qed

text \<open>
  C2. The code cuts the error's message at \<open>closeReasonMaxBytes = 125\<close> bytes and gives
  the result to \<open>conn.Close\<close> as the reason. The reason of a close frame has room for
  123 bytes, not 125. With an error whose message has 500 bytes, on a transport that
  enforces the limit: \<open>conn.Close\<close> is called once, with the internal-error status and a
  reason of 125 bytes; that is over the limit, so no close is carried out with that
  reason, and the run logs at level error that it failed to close the connection.
\<close>

theorem C2_reason_over_limit:
  "length ex_500 = 500 \<and>
   map_option closeCalls (ServeHTTP NewWebsocket ex_strict (\<lambda>i. failing ex_500) 1)
     = Some [(StatusInternalError, replicate 125 (CHR ''x''))] \<and>
   maxCloseReason < length (replicate 125 (CHR ''x'')) \<and>
   map_option closedWith (ServeHTTP NewWebsocket ex_strict (\<lambda>i. failing ex_500) 1) = Some [] \<and>
   map_option (filter isErrorLog) (ServeHTTP NewWebsocket ex_strict (\<lambda>i. failing ex_500) 1)
     = Some [Log ErrorLevel ''Failed to close websocket connection'' ''err'' (ErrValue ex_refused)]"
  by code_simp

text \<open>
  In general, on the internal-error path \<open>conn.Close\<close> is called exactly once, with the
  internal-error status and the first 125 bytes of the error's message, and the
  connection is closed with that reason only if that call returns no error. On a
  transport that refuses every reason over the limit, no error whose message has more
  than 123 bytes closes the connection with a reason.
\<close>

lemma internal_error_close_call:
  assumes "Accept T = None"
    and "fst (serve_loop T rpc fuel 0 (newWebsocketConn (connParams ws))) = Some e"
    and "AsCloseError e = None"
  shows "\<exists>tr. ServeHTTP ws T rpc fuel = Some tr \<and>
           closeCalls tr = [(StatusInternalError, take 125 (Error e))] \<and>
           closedWith tr =
             (case conn_Close T StatusInternalError (take 125 (Error e)) of
                None \<Rightarrow> [(StatusInternalError, take 125 (Error e))]
              | Some e' \<Rightarrow> [])"
proof -
  let ?wsc = "snd (serve_loop T rpc fuel 0 (newWebsocketConn (connParams ws)))"
  have L: "serve_loop T rpc fuel 0 (newWebsocketConn (connParams ws)) = (Some e, ?wsc)"
    using assms(2) by (cases "serve_loop T rpc fuel 0 (newWebsocketConn (connParams ws))") simp
  obtain es where E: "trace ?wsc = SetReadLimit (ReadLimit (connParams ws)) # es"
      "loop_events (WriteDuration (connParams ws)) (Some e) es"
    using loop_from_new [OF L] by blast
  have S: "ServeHTTP ws T rpc fuel = Some (trace (shutdown T e ?wsc))"
    using ServeHTTP_returns [OF assms(1,2)] .
  have c: "closeCalls (trace ?wsc) = []" using loop_quiet(1) [OF L] .
  have d: "closedWith (trace ?wsc) = []"
    using loop_events_unclosed [OF E(2)] E(1) by (simp add: closedWith_def)
  have "closeCalls (trace (shutdown T e ?wsc)) = [(StatusInternalError, take 125 (Error e))]"
    using c
    by (simp add: shutdown_internal [OF assms(3)] closeCalls_def closeReason_take
          split: option.splits)
  moreover have "closedWith (trace (shutdown T e ?wsc)) =
             (case conn_Close T StatusInternalError (take 125 (Error e)) of
                None \<Rightarrow> [(StatusInternalError, take 125 (Error e))]
              | Some e' \<Rightarrow> [])"
    using d
    by (simp add: shutdown_internal [OF assms(3)] closedWith_def closeReason_take
          split: option.splits)
  ultimately show ?thesis using S by simp
qed

lemma over_limit_never_closed:
  assumes "Accept T = None"
    and "fst (serve_loop T rpc fuel 0 (newWebsocketConn (connParams ws))) = Some e"
    and "AsCloseError e = None"
    and "maxCloseReason < length (Error e)"
    and "\<forall>status reason. maxCloseReason < length reason \<longrightarrow> conn_Close T status reason \<noteq> None"
  shows "\<exists>tr. ServeHTTP ws T rpc fuel = Some tr \<and> closedWith tr = []"
proof -
  have "maxCloseReason < length (take 125 (Error e))"
    using assms(4) by (simp add: maxCloseReason_def)
  then have "conn_Close T StatusInternalError (take 125 (Error e)) \<noteq> None"
    using assms(5) by blast
  then show ?thesis
    using internal_error_close_call [OF assms(1,2,3)] by (auto split: option.splits)
qed

text \<open>
  The cut is at a byte position, and nothing keeps it off the middle of a UTF-8
  sequence: the message \<open>ex_long\<close> is well-formed UTF-8, and the reason that
  \<open>conn.Close\<close> is given for it is \<open>ex_cut\<close>, which ends with the first byte of a
  sequence of two and is not.
\<close>

lemma byte_cut_splits_utf8:
  "utf8_valid ex_long \<and>
   map_option closeCalls (ServeHTTP NewWebsocket ex_transport (\<lambda>i. failing ex_long) 1)
     = Some [(StatusInternalError, ex_cut)] \<and>
   \<not> utf8_valid ex_cut"
  by code_simp

text \<open>
  C8. On the internal-error path, when \<open>conn.Close\<close> itself returns an error: if the text
  of that error contains \<open>already wrote close\<close>, the run has no log entry of level
  error; otherwise it has exactly one, the failure to close with that error.
\<close>

theorem C8_close_race:
  assumes "Accept T = None"
    and "fst (serve_loop T rpc fuel 0 (newWebsocketConn (connParams ws))) = Some e"
    and "AsCloseError e = None"
    and "conn_Close T StatusInternalError (closeReason (Error e)) = Some e'"
  shows "\<exists>tr. ServeHTTP ws T rpc fuel = Some tr \<and>
           filter isErrorLog tr =
             (if Contains (Error e') ''already wrote close'' then []
              else [Log ErrorLevel ''Failed to close websocket connection'' ''err'' (ErrValue e')])"
proof -
  let ?wsc = "snd (serve_loop T rpc fuel 0 (newWebsocketConn (connParams ws)))"
  have L: "serve_loop T rpc fuel 0 (newWebsocketConn (connParams ws)) = (Some e, ?wsc)"
    using assms(2) by (cases "serve_loop T rpc fuel 0 (newWebsocketConn (connParams ws))") simp
  have S: "ServeHTTP ws T rpc fuel = Some (trace (shutdown T e ?wsc))"
    using ServeHTTP_returns [OF assms(1,2)] .
  show ?thesis
    using loop_quiet(2) [OF L] S
    by (simp add: shutdown_internal [OF assms(3)] assms(4))
qed

theorem C8_close_race_witness:
  "Contains (Error ex_already) ''already wrote close'' \<and>
   (\<exists>tr. ServeHTTP NewWebsocket (ex_transport\<lparr>conn_Close := \<lambda>s r. Some ex_already\<rparr>)
            (\<lambda>i. failing ''parse error'') 1 = Some tr \<and>
          filter isErrorLog tr = []) \<and>
   \<not> Contains (Error ex_broken) ''already wrote close'' \<and>
   (\<exists>tr. ServeHTTP NewWebsocket (ex_transport\<lparr>conn_Close := \<lambda>s r. Some ex_broken\<rparr>)
            (\<lambda>i. failing ''parse error'') 1 = Some tr \<and>
          filter isErrorLog tr =
            [Log ErrorLevel ''Failed to close websocket connection'' ''err'' (ErrValue ex_broken)])"
proof -
  have c1: "Contains (Error ex_already) ''already wrote close''" by code_simp
  have c2: "\<not> Contains (Error ex_broken) ''already wrote close''" by code_simp
  have h1: "Accept (ex_transport\<lparr>conn_Close := f\<rparr>) = None" for f
    by (simp add: ex_transport_def)
  have h2: "fst (serve_loop (ex_transport\<lparr>conn_Close := f\<rparr>) (\<lambda>i. failing ''parse error'') 1 0
          (newWebsocketConn (connParams NewWebsocket))) = Some (GoError ''parse error'' None)" for f
    by (simp add: failing_def)
  have h3: "AsCloseError (GoError ''parse error'' None) = None" by simp
  have h4: "conn_Close (ex_transport\<lparr>conn_Close := \<lambda>s r. Some x\<rparr>) StatusInternalError
              (closeReason (Error (GoError ''parse error'' None))) = Some x" for x
    by simp
  show ?thesis
    using c1 c2 C8_close_race [OF h1 h2 h3 h4, of ex_already]
      C8_close_race [OF h1 h2 h3 h4, of ex_broken]
    by simp
qed



subsection \<open>Connection parameters\<close>

text \<open>
  C7. A \<open>Websocket\<close> from \<open>NewWebsocket\<close> has the defaults, 32 MiB and 5 seconds, both
  positive. \<open>WithConnParams\<close>, whose comment says that it "sanity checks and applies the
  provided params", checks nothing: given a read limit of 0 and a write duration of -1
  nanosecond it stores them, and the parameters in effect are not positive.
\<close>

theorem C7_params_unchecked:
  "params_positive (connParams NewWebsocket) \<and>
   connParams NewWebsocket = \<lparr>ReadLimit = 33554432, WriteDuration = 5000000000\<rparr> \<and>
   connParams (WithConnParams NewWebsocket \<lparr>ReadLimit = 0, WriteDuration = - 1\<rparr>)
     = \<lparr>ReadLimit = 0, WriteDuration = - 1\<rparr> \<and>
   \<not> params_positive (connParams (WithConnParams NewWebsocket \<lparr>ReadLimit = 0, WriteDuration = - 1\<rparr>))"
  by (simp add: params_positive_def NewWebsocket_def WithConnParams_def
        DefaultWebsocketConnParams_def Second_def)

end
